theory Spec2Isabelle
  imports Complex_Main "HOL-Library.Sublist"
begin

section \<open>Python string primitives used by the pipeline\<close>

text \<open>
  Python strings are sequences of code points. They are modelled as \<^typ>\<open>string\<close>, one
  \<^typ>\<open>char\<close> per code point, which covers the code points below 256; \<open>len\<close> is
  \<^const>\<open>length\<close>. The whitespace of \<open>str.split\<close>, \<open>str.strip\<close> and of \<open>\s\<close> in a
  \<open>str\<close> pattern is \<open>str.isspace\<close>: below 256 these are the twelve characters listed.
\<close>

definition is_space :: "char \<Rightarrow> bool" where
  "is_space c \<longleftrightarrow>
     c \<in> set [CHR 0x09, CHR 0x0A, CHR 0x0B, CHR 0x0C, CHR 0x0D, CHR 0x1C, CHR 0x1D, CHR 0x1E,
              CHR 0x1F, CHR 0x20, CHR 0x85, CHR 0xA0]"

text \<open>\<open>s.strip()\<close>: whitespace removed at both ends.\<close>

definition py_strip :: "string \<Rightarrow> string" where
  "py_strip s = rev (dropWhile is_space (rev (dropWhile is_space s)))"

text \<open>\<open>s.split()\<close>: the maximal runs of non-whitespace characters, in order.\<close>

fun py_split_go :: "string \<Rightarrow> string \<Rightarrow> string list" where
  "py_split_go w [] = (if w = [] then [] else [w])"
| "py_split_go w (c # cs) =
     (if is_space c then (if w = [] then py_split_go [] cs else w # py_split_go [] cs)
      else py_split_go (w @ [c]) cs)"

definition py_split :: "string \<Rightarrow> string list" where
  "py_split s = py_split_go [] s"

text \<open>\<open>sep.join(xs)\<close>.\<close>

fun py_join :: "string \<Rightarrow> string list \<Rightarrow> string" where
  "py_join sep [] = []"
| "py_join sep [x] = x"
| "py_join sep (x # y # ys) = x @ sep @ py_join sep (y # ys)"

text \<open>
  The slice \<open>xs[start:]\<close>: a negative start counts from the end and is clipped at the
  beginning of the list; a start beyond the end gives the empty list. In particular
  \<open>xs[-0:]\<close> is \<open>xs[0:]\<close>, the whole list.
\<close>

definition py_slice_from :: "int \<Rightarrow> 'a list \<Rightarrow> 'a list" where
  "py_slice_from start xs =
     (let n = int (length xs);
          k = (if start < 0 then max 0 (n + start) else min start n)
      in drop (nat k) xs)"

text \<open>\<open>str(n)\<close> for a natural number, as the f-strings \<open>{i+1}\<close> print it.\<close>

fun str_of_nat :: "nat \<Rightarrow> string" where
  "str_of_nat n =
     (if n < 10 then [''0123456789'' ! n]
      else str_of_nat (n div 10) @ [''0123456789'' ! (n mod 10)])"

declare str_of_nat.simps [simp del]

text \<open>
  \<open>re.split(r'(?<=[.!?])\s+', text)\<close>: the text is cut at every maximal run of whitespace
  that directly follows one of \<open>.\<close>, \<open>!\<close>, \<open>?\<close>; the run is removed, the pieces are returned
  in order, and a text that ends with such a run has an empty last piece. The scan keeps
  whether it is inside a separator, whether the previous character was a terminator, and the
  piece read so far.
\<close>

definition is_terminator :: "char \<Rightarrow> bool" where
  "is_terminator c \<longleftrightarrow> c = CHR ''.'' \<or> c = CHR ''!'' \<or> c = CHR ''?''"

fun re_split_go :: "bool \<Rightarrow> bool \<Rightarrow> string \<Rightarrow> string \<Rightarrow> string list" where
  "re_split_go in_sep after_term piece [] = [piece]"
| "re_split_go in_sep after_term piece (c # cs) =
     (if is_space c \<and> in_sep then re_split_go True False piece cs
      else if is_space c \<and> after_term then piece # re_split_go True False [] cs
      else re_split_go False (is_terminator c) (piece @ [c]) cs)"

definition re_split_sentences :: "string \<Rightarrow> string list" where
  "re_split_sentences s = re_split_go False False [] s"

section \<open>Data model\<close>

text \<open>
  The dictionaries of the pipeline. Metadata is a dictionary from strings to strings (the
  Chunker writes \<open>source\<close>, \<open>filename\<close>, \<open>source_type\<close> and \<open>doc_id\<close>, all strings). A chunk is
  \<open>{"text", "metadata"}\<close>; a retrieved document adds \<open>"id"\<close> and \<open>"distance"\<close>.
\<close>

type_synonym metadata = "string \<rightharpoonup> string"

record chunk =
  "text" :: string
  metadata :: metadata

record document = chunk +
  doc_id :: string
  distance :: "real option"

text \<open>A search result \<open>{"title", "url", "snippet"}\<close>; \<open>url\<close> is \<open>None\<close> when the link had no \<open>href\<close>.\<close>

record search_result =
  title :: string
  url :: "string option"
  snippet :: string

text \<open>The response envelope returned by \<open>Generator.generate_response\<close>.\<close>

record response =
  question :: string
  answer :: string
  sources :: "string list"
  used_dynamic_search :: bool

section \<open>Generator: the relevance gate\<close>

text \<open>\<open>Generator.is_content_relevant\<close> (generator.py, lines 37 to 54); it reads no field of \<open>self\<close>.\<close>

definition is_content_relevant :: "string \<Rightarrow> document list \<Rightarrow> bool" where
  "is_content_relevant question' retrieved_docs =
     (if retrieved_docs = [] then False
      else if length retrieved_docs < 2 then False
      else let total_content_length = sum_list (map (\<lambda>doc. length (text doc)) retrieved_docs)
           in if total_content_length < 500 then False else True)"

section \<open>Chunker\<close>

text \<open>The three options \<open>TextChunker.__init__\<close> reads (chunker.py, lines 18 to 20).\<close>

record text_chunker =
  chunk_size :: int
  chunk_overlap :: int
  min_chunk_length :: int

text \<open>
  The loop of \<open>TextChunker._chunk_text\<close> over the sentences (chunker.py, lines 37 to 55),
  as a recursion that carries \<open>chunks\<close> and \<open>current_chunk\<close>.
\<close>

fun chunk_loop ::
  "text_chunker \<Rightarrow> metadata \<Rightarrow> chunk list \<Rightarrow> string \<Rightarrow> string list \<Rightarrow> chunk list \<times> string"
where
  "chunk_loop c md chunks current_chunk [] = (chunks, current_chunk)"
| "chunk_loop c md chunks current_chunk (sentence # rest) =
     (if int (length current_chunk) + int (length sentence) > chunk_size c
         \<and> int (length current_chunk) \<ge> min_chunk_length c
      then
        let words = py_split current_chunk;
            overlap_text =
              (if int (length words) > chunk_overlap c
               then py_join '' '' (py_slice_from (- chunk_overlap c) words) else [])
        in chunk_loop c md
             (chunks @ [\<lparr>text = py_strip current_chunk, metadata = md\<rparr>])
             (overlap_text @ '' '' @ sentence) rest
      else
        chunk_loop c md chunks
          (if current_chunk \<noteq> [] then current_chunk @ '' '' @ sentence else sentence) rest)"

text \<open>\<open>TextChunker._chunk_text\<close> (chunker.py, lines 26 to 64).\<close>

definition chunk_text :: "text_chunker \<Rightarrow> string \<Rightarrow> metadata \<Rightarrow> chunk list" where
  "chunk_text c text' md =
     (case chunk_loop c md [] [] (re_split_sentences text') of
        (chunks, current_chunk) \<Rightarrow>
          if current_chunk \<noteq> [] \<and> int (length current_chunk) \<ge> min_chunk_length c
          then chunks @ [\<lparr>text = py_strip current_chunk, metadata = md\<rparr>]
          else chunks)"

section \<open>Retriever\<close>

text \<open>
  The retriever holds \<open>top_k\<close> and its vector database; \<open>vector_db.search(query, top_k)\<close>
  is a collaborator and is a field of the record. The documents of the index come from the
  Chunker, so each carries a metadata dictionary.
\<close>

record retriever =
  top_k :: int
  vector_db_search :: "string \<Rightarrow> int \<Rightarrow> document list"

text \<open>
  The inner loop of \<open>Retriever.retrieve\<close> over \<open>filters.items()\<close> (retriever.py, lines 43
  to 47): the value of \<open>match\<close> after the loop.
\<close>

fun filters_match :: "metadata \<Rightarrow> (string \<times> string) list \<Rightarrow> bool" where
  "filters_match md [] = True"
| "filters_match md ((key, val) # rest) =
     (if (case md key of None \<Rightarrow> False | Some v \<Rightarrow> v \<noteq> val) then False
      else filters_match md rest)"

text \<open>
  \<open>Retriever.retrieve\<close> (retriever.py, lines 31 to 53). The filters are \<open>None\<close> or a
  dictionary, given by its items.
\<close>

definition retrieve ::
  "retriever \<Rightarrow> string \<Rightarrow> (string \<times> string) list option \<Rightarrow> document list" where
  "retrieve r query filters =
     (let results = vector_db_search r query (top_k r)
      in case filters of
           None \<Rightarrow> results
         | Some fs \<Rightarrow>
             if fs \<noteq> [] \<and> results \<noteq> []
             then filter (\<lambda>doc. filters_match (metadata doc) fs) results
             else results)"

text \<open>
  The loop of \<open>Retriever.format_for_prompt\<close> (retriever.py, lines 62 to 70), carrying
  \<open>formatted_text\<close> and the index \<open>i\<close> of \<open>enumerate\<close>.
\<close>

fun format_loop :: "string \<Rightarrow> nat \<Rightarrow> document list \<Rightarrow> string" where
  "format_loop formatted_text i [] = formatted_text"
| "format_loop formatted_text i (doc # rest) =
     format_loop
       (formatted_text @ ''[Document '' @ str_of_nat (i + 1) @ '']\<newline>''
          @ text doc @ ''\<newline>''
          @ (case metadata doc ''source'' of
               None \<Rightarrow> []
             | Some s \<Rightarrow> if s \<noteq> [] then ''Source: '' @ s @ ''\<newline>'' else [])
          @ ''\<newline>'' @ replicate 40 CHR ''-'' @ ''\<newline>\<newline>'')
       (i + 1) rest"

text \<open>\<open>Retriever.format_for_prompt\<close> (retriever.py, lines 55 to 72).\<close>

definition format_for_prompt :: "document list \<Rightarrow> string" where
  "format_for_prompt results =
     (if results = [] then ''No relevant information found.''
      else format_loop ''RELEVANT INFORMATION:\<newline>\<newline>'' 0 results)"

section \<open>Text-generation model\<close>

text \<open>
  What calling the loaded model on a prompt does: it returns a text, or it raises an
  \<open>Exception\<close> \<open>e\<close>, kept as \<open>str(e)\<close>.
\<close>

datatype outcome = Returns string | Raises string

text \<open>
  \<open>LocalLLM\<close>: \<open>model\<close> is \<open>None\<close> until a model is loaded; \<open>load_model\<close> is the model
  that \<open>load_model()\<close> would install, \<open>None\<close> when loading fails (it then returns \<open>False\<close>).
\<close>

record local_llm =
  model :: "(string \<Rightarrow> outcome) option"
  load_model :: "(string \<Rightarrow> outcome) option"

text \<open>The \<open>try\<close> block of \<open>LocalLLM.generate\<close> (model.py, lines 57 to 67).\<close>

definition call_model :: "(string \<Rightarrow> outcome) \<Rightarrow> string \<Rightarrow> string" where
  "call_model m prompt =
     (case m prompt of
        Returns response \<Rightarrow> response
      | Raises e \<Rightarrow> ''Error during text generation: '' @ e)"

text \<open>\<open>LocalLLM.generate\<close> (model.py, lines 50 to 67).\<close>

definition generate :: "local_llm \<Rightarrow> string \<Rightarrow> string" where
  "generate l prompt =
     (case model l of
        Some m \<Rightarrow> call_model m prompt
      | None \<Rightarrow>
          (case load_model l of
             None \<Rightarrow> ''Error: Model could not be loaded. Please check the logs.''
           | Some m \<Rightarrow> call_model m prompt))"

section \<open>Dynamic search\<close>

text \<open>
  What fetching and parsing a page does inside \<open>DynamicSearchEngine.extract_content\<close>: an
  exception \<open>e\<close> (kept as \<open>str(e)\<close>), a page without a body, or the cleaned text of the
  paragraphs, headings and list items of the content container.
\<close>

datatype fetch_outcome = Fetch_failed string | No_body | Body string

text \<open>
  \<open>DynamicSearchEngine\<close>: \<open>search\<close> and the page fetch talk to the network and are
  fields of the record. \<open>search\<close> catches every exception and then returns the empty
  list.
\<close>

record dynamic_search_engine =
  search :: "string \<Rightarrow> int \<Rightarrow> search_result list"
  fetch_page :: "string \<Rightarrow> fetch_outcome"

text \<open>
  \<open>DynamicSearchEngine.extract_content\<close> (dynamic_search.py, lines 64 to 110): it never
  raises; a failure is returned as a text.
\<close>

definition extract_content :: "dynamic_search_engine \<Rightarrow> string \<Rightarrow> string" where
  "extract_content d url' =
     (case fetch_page d url' of
        Body content_text \<Rightarrow> ''Content from '' @ url' @ '':\<newline>\<newline>'' @ content_text
      | No_body \<Rightarrow> ''Could not extract meaningful content from '' @ url'
      | Fetch_failed e \<Rightarrow> ''Error extracting content: '' @ e)"

text \<open>
  The loop of \<open>Generator.perform_dynamic_search\<close> that fills \<open>all_content\<close> (generator.py,
  lines 67 to 71); \<open>i\<close> is the index of \<open>enumerate\<close>.
\<close>

fun collect_content :: "(string \<Rightarrow> string) \<Rightarrow> nat \<Rightarrow> search_result list \<Rightarrow> string list" where
  "collect_content extract i [] = []"
| "collect_content extract i (result # rest) =
     (case url result of
        None \<Rightarrow> collect_content extract (i + 1) rest
      | Some u \<Rightarrow>
          if u \<noteq> []
          then (''[Source '' @ str_of_nat (i + 1) @ '': '' @ u @ '']\<newline>'' @ extract u @ ''\<newline>'')
                 # collect_content extract (i + 1) rest
          else collect_content extract (i + 1) rest)"

text \<open>\<open>combined_content\<close> as line 74 of generator.py leaves it.\<close>

definition combined_content :: "dynamic_search_engine \<Rightarrow> search_result list \<Rightarrow> string" where
  "combined_content d search_results =
     py_join ''\<newline>'' (collect_content (extract_content d) 0 search_results)"

text \<open>\<open>Generator.perform_dynamic_search\<close> (generator.py, lines 56 to 81).\<close>

definition perform_dynamic_search :: "dynamic_search_engine \<Rightarrow> string \<Rightarrow> string" where
  "perform_dynamic_search d question' =
     (let search_results = search d question' 3
      in if search_results = [] then ''No relevant information found from web search.''
         else
           let combined = combined_content d search_results;
               max_length = 4000
           in if length combined > max_length
              then take max_length combined @ ''... [content truncated]''
              else combined)"

section \<open>Generator\<close>

text \<open>The fields \<open>Generator.__init__\<close> sets (generator.py, lines 23 to 35).\<close>

record generator =
  prompt_template :: string
  dynamic_search_enabled :: bool
  min_relevance_score :: real
  llm :: local_llm
  retriever :: retriever
  dynamic_search :: dynamic_search_engine

text \<open>
  \<open>Generator.generate_response\<close> up to the prompt (generator.py, lines 88 to 111): the
  values of \<open>context\<close>, \<open>sources\<close> and \<open>dynamic_content\<close> when line 113 is reached.
\<close>

definition gather_context :: "generator \<Rightarrow> string \<Rightarrow> string \<times> string list \<times> string option" where
  "gather_context g question' =
     (let retrieved_docs = retrieve (retriever g) question' None;
          sources' =
            map (\<lambda>doc. case metadata doc ''source'' of None \<Rightarrow> ''Unknown'' | Some s \<Rightarrow> s)
              retrieved_docs
      in if dynamic_search_enabled g \<and> \<not> is_content_relevant question' retrieved_docs
         then
           let dynamic_content = perform_dynamic_search (dynamic_search g) question'
           in if dynamic_content \<noteq> []
                 \<and> dynamic_content \<noteq> ''No relevant information found from web search.''
              then
                let context = format_for_prompt retrieved_docs
                in (if context = ''No relevant information found.'' then dynamic_content
                    else context @ ''\<newline>\<newline>ADDITIONAL WEB SEARCH RESULTS:\<newline>''
                           @ dynamic_content,
                    sources' @ [''Dynamic Web Search''],
                    Some dynamic_content)
              else (format_for_prompt retrieved_docs, sources', Some dynamic_content)
         else (format_for_prompt retrieved_docs, sources', None))"

text \<open>
  The prompt (generator.py, lines 113 to 131). \<open>str.format\<close> is Python's own: its outcome
  on the template with the keywords \<open>context\<close> and \<open>question\<close> is the parameter
  \<open>str_format\<close>, \<open>None\<close> when it raises (a template with another field, or a lone brace).
\<close>

datatype py_error = FormatError

definition build_prompt ::
  "(string \<Rightarrow> string \<Rightarrow> string \<Rightarrow> string option) \<Rightarrow> string \<Rightarrow> string \<Rightarrow> string
     \<Rightarrow> py_error + string" where
  "build_prompt str_format template context question' =
     (if sublist ''{context}'' template \<and> sublist ''{question}'' template
      then (case str_format template context question' of
              None \<Rightarrow> Inl FormatError
            | Some prompt \<Rightarrow> Inr prompt)
      else Inr (''<|system|>\<newline>You are TechMentor AI, a helpful tech career advisor. Answer the user's question based on the following information:\<newline>''
                @ context @ ''\<newline></s>\<newline>\<newline><|user|>\<newline>'' @ question'
                @ ''\<newline></s>\<newline>\<newline><|assistant|>\<newline>''))"

text \<open>\<open>Generator.generate_response\<close> (generator.py, lines 83 to 142).\<close>

definition generate_response ::
  "(string \<Rightarrow> string \<Rightarrow> string \<Rightarrow> string option) \<Rightarrow> generator \<Rightarrow> string
     \<Rightarrow> py_error + response" where
  "generate_response str_format g question' =
     (case gather_context g question' of
        (context, sources', dynamic_content) \<Rightarrow>
          (case build_prompt str_format (prompt_template g) context question' of
             Inl e \<Rightarrow> Inl e
           | Inr prompt \<Rightarrow>
               Inr \<lparr>question = question',
                    answer = generate (llm g) prompt,
                    sources = sources',
                    used_dynamic_search = (dynamic_content \<noteq> None)\<rparr>))"

text \<open>
  The loop of \<open>Generator.format_response_with_sources\<close> over \<open>enumerate(unique_sources)\<close>
  (generator.py, lines 156 to 158).
\<close>

fun sources_loop :: "string \<Rightarrow> nat \<Rightarrow> string list \<Rightarrow> string" where
  "sources_loop formatted_response i [] = formatted_response"
| "sources_loop formatted_response i (source # rest) =
     sources_loop
       (if source \<noteq> [] \<and> source \<noteq> ''Unknown''
        then formatted_response @ str_of_nat (i + 1) @ ''. '' @ source @ ''\<newline>''
        else formatted_response)
       (i + 1) rest"

text \<open>
  \<open>Generator.format_response_with_sources\<close> (generator.py, lines 144 to 160). The order in
  which \<open>list(set(xs))\<close> lists the distinct elements of \<open>xs\<close> depends on the hashes of the
  strings; it is the parameter \<open>list_of_set\<close>.
\<close>

definition format_response_with_sources :: "(string list \<Rightarrow> string list) \<Rightarrow> response \<Rightarrow> string" where
  "format_response_with_sources list_of_set r =
     (let formatted_response = answer r;
          formatted_response =
            (if used_dynamic_search r
             then formatted_response
                    @ ''\<newline>\<newline>[Note: This response includes information from a real-time web search]''
             else formatted_response)
      in if sources r \<noteq> []
         then sources_loop (formatted_response @ ''\<newline>\<newline>Sources:\<newline>'') 0
                (list_of_set (sources r))
         else formatted_response)"

section \<open>Reading the rendered prompt\<close>

text \<open>
  The number of positions of a text at which a pattern occurs; for a pattern that cannot
  overlap itself this is what \<open>str.count\<close> returns.
\<close>

fun count_occ :: "string \<Rightarrow> string \<Rightarrow> nat" where
  "count_occ pat [] = (if pat = [] then 1 else 0)"
| "count_occ pat (c # cs) = (if prefix pat (c # cs) then 1 else 0) + count_occ pat cs"

text \<open>
  What one round of the loop of \<open>format_for_prompt\<close> appends for the document at index
  \<open>i\<close> (retriever.py, lines 63 to 70), the \<open>Source:\<close> line of lines 67 and 68 alone, and
  the test of line 67.
\<close>

definition format_block :: "nat \<times> document \<Rightarrow> string" where
  "format_block = (\<lambda>(i, doc).
     ''[Document '' @ str_of_nat (i + 1) @ '']\<newline>''
     @ text doc @ ''\<newline>''
     @ (case metadata doc ''source'' of
          None \<Rightarrow> []
        | Some s \<Rightarrow> if s \<noteq> [] then ''Source: '' @ s @ ''\<newline>'' else [])
     @ ''\<newline>'' @ replicate 40 CHR ''-'' @ ''\<newline>\<newline>'')"

definition source_line :: "document \<Rightarrow> string" where
  "source_line doc =
     (case metadata doc ''source'' of
        None \<Rightarrow> []
      | Some s \<Rightarrow> if s \<noteq> [] then ''Source: '' @ s @ ''\<newline>'' else [])"

definition has_source :: "document \<Rightarrow> bool" where
  "has_source doc = (case metadata doc ''source'' of None \<Rightarrow> False | Some s \<Rightarrow> s \<noteq> [])"

section \<open>Overlap between consecutive chunks\<close>

text \<open>
  The overlap seed as the specification words it: the last \<open>chunk_overlap\<close> words of a
  chunk's text, joined by single spaces.
\<close>

definition overlap_seed :: "text_chunker \<Rightarrow> string \<Rightarrow> string" where
  "overlap_seed c chunk_text' =
     (let ws = py_split chunk_text'
      in py_join '' '' (drop (length ws - nat (chunk_overlap c)) ws))"

text \<open>
  A text is seeded by the chunk before it when it begins with that chunk's overlap seed,
  provided the chunk has more than \<open>chunk_overlap\<close> words.
\<close>

definition seeded :: "text_chunker \<Rightarrow> string \<Rightarrow> string \<Rightarrow> bool" where
  "seeded c first second \<longleftrightarrow>
     (0 \<le> chunk_overlap c \<and> chunk_overlap c < int (length (py_split first))
        \<longrightarrow> prefix (overlap_seed c first) second)"

text \<open>A word of \<open>str.split()\<close>: not empty, no whitespace.\<close>

definition proper_word :: "string \<Rightarrow> bool" where
  "proper_word w \<longleftrightarrow> w \<noteq> [] \<and> (\<forall>ch \<in> set w. \<not> is_space ch)"

text \<open>
  The invariant of the loop of \<open>_chunk_text\<close>: each chunk emitted so far seeds the next
  one, and the last one seeds the buffer.
\<close>

definition chunks_seeded :: "text_chunker \<Rightarrow> chunk list \<Rightarrow> string \<Rightarrow> bool" where
  "chunks_seeded c chunks current_chunk \<longleftrightarrow>
     successively (seeded c) (map text chunks)
     \<and> (chunks \<noteq> [] \<longrightarrow> seeded c (text (last chunks)) current_chunk)"

section \<open>Concrete inputs\<close>

text \<open>Small pipelines on which the properties below are evaluated.\<close>

definition no_template_format :: "string \<Rightarrow> string \<Rightarrow> string \<Rightarrow> string option" where
  "no_template_format template context question' = None"

definition echo_llm :: local_llm where
  "echo_llm = \<lparr>model = Some (\<lambda>prompt. Returns ''ok''), load_model = None\<rparr>"

definition failing_llm :: local_llm where
  "failing_llm = \<lparr>model = Some (\<lambda>prompt. Raises ''out of memory''), load_model = None\<rparr>"

definition sql_document :: document where
  "sql_document =
     \<lparr>text = ''Learn SQL.'', metadata = [''source'' \<mapsto> ''a.txt''], doc_id = ''chunk_0'',
      distance = None\<rparr>"

definition index_of :: "document list \<Rightarrow> retriever" where
  "index_of docs = \<lparr>top_k = 5, vector_db_search = (\<lambda>query k. docs)\<rparr>"

definition one_page :: "string \<Rightarrow> search_result list" where
  "one_page u = [\<lparr>title = ''t'', url = Some u, snippet = ''s''\<rparr>]"

definition web_generator ::
  "document list \<Rightarrow> search_result list \<Rightarrow> fetch_outcome \<Rightarrow> local_llm \<Rightarrow> generator" where
  "web_generator docs results page l =
     \<lparr>prompt_template = [], dynamic_search_enabled = True, min_relevance_score = 0.6,
      llm = l, retriever = index_of docs,
      dynamic_search = \<lparr>search = (\<lambda>query n. results), fetch_page = (\<lambda>u. page)\<rparr>\<rparr>"

section \<open>Properties\<close>

subsection \<open>Evaluation of the concrete inputs\<close>

lemma str_of_nat_1: "str_of_nat (Suc 0) = ''1''"
  by (simp add: str_of_nat.simps)

lemma str_of_nat_2: "str_of_nat (Suc (Suc 0)) = ''2''"
  by (simp add: str_of_nat.simps)

lemmas example_defs =
  web_generator_def one_page_def echo_llm_def failing_llm_def index_of_def sql_document_def
  no_template_format_def


lemmas chunker_eval =
  chunk_text_def re_split_sentences_def is_space_def is_terminator_def py_split_def
  py_strip_def py_slice_from_def

subsection \<open>Relevance gate\<close>

text \<open>
  Claim C5. The relevance gate is a function of its arguments alone, and it answers true
  exactly when at least two documents were retrieved and the character lengths of their texts
  add up to at least 500; it answers false for the empty sequence and for every single
  document, whatever its content.
\<close>

theorem is_content_relevant_iff:
  "(is_content_relevant q docs \<longleftrightarrow>
      2 \<le> length docs \<and> 500 \<le> sum_list (map (\<lambda>doc. length (text doc)) docs))
   \<and> is_content_relevant q [] = False
   \<and> is_content_relevant q [d] = False"
  by (auto simp: is_content_relevant_def Let_def)

subsection \<open>Retriever: the filters\<close>

lemma filters_match_iff:
  "filters_match md fs \<longleftrightarrow> (\<forall>(k, v) \<in> set fs. \<forall>v'. md k = Some v' \<longrightarrow> v' = v)"
  by (induction md fs rule: filters_match.induct) (auto split: option.splits)

text \<open>
  Claim C2, as stated, fails: with the filter \<open>source_type = web\<close>, a document whose
  metadata has no \<open>source_type\<close> is kept, not dropped.
\<close>

theorem retrieve_keeps_document_without_key:
  "retrieve
     \<lparr>top_k = 5,
      vector_db_search = (\<lambda>query k.
        [\<lparr>text = ''Learn SQL.'', metadata = [''source'' \<mapsto> ''a.txt''],
          doc_id = ''chunk_0'', distance = None\<rparr>])\<rparr>
     ''databases'' (Some [(''source_type'', ''web'')])
   = [\<lparr>text = ''Learn SQL.'', metadata = [''source'' \<mapsto> ''a.txt''],
        doc_id = ''chunk_0'', distance = None\<rparr>]
   \<and> [''source'' \<mapsto> ''a.txt''] ''source_type'' = None"
  by (simp add: retrieve_def)

text \<open>
  Claim C2, amended. For every query and every filters mapping, \<open>retrieve\<close> keeps a
  retrieved document exactly when every filter key that the document's metadata contains has
  the filter's value there; a filter key that the metadata lacks does not exclude the
  document. The order of the kept documents is that of the index.
\<close>

theorem retrieve_post_filter:
  "retrieve r query (Some fs) =
     filter (\<lambda>doc. \<forall>(k, v) \<in> set fs. \<forall>v'. metadata doc k = Some v' \<longrightarrow> v' = v)
       (vector_db_search r query (top_k r))"
proof -
  have "filter (\<lambda>doc. filters_match (metadata doc) []) xs = xs" for xs :: "document list"
    by simp
  then show ?thesis
    by (auto simp: retrieve_def Let_def filters_match_iff)
qed

text \<open>
  Of three documents, the one with the value \<open>web\<close> and the one without the key are kept;
  the one with another value is dropped.
\<close>

theorem retrieve_post_filter_witness:
  "retrieve
     \<lparr>top_k = 5,
      vector_db_search = (\<lambda>query k.
        [\<lparr>text = ''A'', metadata = [''source_type'' \<mapsto> ''web''], doc_id = ''chunk_0'', distance = None\<rparr>,
         \<lparr>text = ''B'', metadata = [''source_type'' \<mapsto> ''pdf_extracted''], doc_id = ''chunk_1'', distance = None\<rparr>,
         \<lparr>text = ''C'', metadata = [''source'' \<mapsto> ''a.txt''], doc_id = ''chunk_2'', distance = None\<rparr>])\<rparr>
     ''databases'' (Some [(''source_type'', ''web'')])
   = [\<lparr>text = ''A'', metadata = [''source_type'' \<mapsto> ''web''], doc_id = ''chunk_0'', distance = None\<rparr>,
      \<lparr>text = ''C'', metadata = [''source'' \<mapsto> ''a.txt''], doc_id = ''chunk_2'', distance = None\<rparr>]"
  using retrieve_post_filter [of
     "\<lparr>top_k = 5,
      vector_db_search = (\<lambda>query k.
        [\<lparr>text = ''A'', metadata = [''source_type'' \<mapsto> ''web''], doc_id = ''chunk_0'', distance = None\<rparr>,
         \<lparr>text = ''B'', metadata = [''source_type'' \<mapsto> ''pdf_extracted''], doc_id = ''chunk_1'', distance = None\<rparr>,
         \<lparr>text = ''C'', metadata = [''source'' \<mapsto> ''a.txt''], doc_id = ''chunk_2'', distance = None\<rparr>])\<rparr>"
     "''databases''" "[(''source_type'', ''web'')]"]
  by simp

subsection \<open>Retriever: rendering the documents for the prompt\<close>

lemma format_loop_concat:
  "format_loop acc i docs = acc @ concat (map format_block (enumerate i docs))"
  by (induction docs arbitrary: acc i) (auto simp: format_block_def)

lemma count_occ_zero_iff: "count_occ m s = 0 \<longleftrightarrow> \<not> sublist m s"
  by (induction s) (auto simp: sublist_Cons_right)

lemma count_occ_absent_head:
  "c \<notin> set s \<Longrightarrow> count_occ (c # m) s = 0"
  by (induction s) auto

lemma count_occ_skip:
  "c \<notin> set a \<Longrightarrow> count_occ (c # m) (a @ b) = count_occ (c # m) b"
  by (induction a) auto

lemma prefix_before_newline:
  assumes "n \<notin> set m"
  shows "prefix m (x @ n # b) \<longleftrightarrow> prefix m x"
proof
  assume "prefix m (x @ n # b)"
  then consider "prefix m x" | us where "m = x @ us" "prefix us (n # b)"
    by (auto simp: prefix_append)
  then show "prefix m x"
  proof cases
    case 1
    then show ?thesis .
  next
    case 2
    with assms show ?thesis by (cases us) auto
  qed
next
  assume "prefix m x"
  then show "prefix m (x @ n # b)" by (simp add: prefix_prefix)
qed

lemma count_occ_line:
  assumes "n \<notin> set m" "m \<noteq> []"
  shows "count_occ m (t @ n # b) = count_occ m t + count_occ m b"
proof (induction t)
  case Nil
  from assms have "\<not> prefix m (n # b)" by (cases m) auto
  with assms show ?case by simp
next
  case (Cons c t)
  have "prefix m ((c # t) @ n # b) \<longleftrightarrow> prefix m (c # t)"
    using prefix_before_newline [OF assms(1)] .
  with Cons show ?case by simp
qed

lemma digits_of_str_of_nat: "set (str_of_nat k) \<subseteq> set ''0123456789''"
proof (induction k rule: str_of_nat.induct)
  case (1 k)
  have d: "''0123456789'' ! j \<in> set ''0123456789''" if "j < 10" for j
    using that nth_mem [of j "''0123456789''"] by simp
  show ?case
  proof (cases "k < 10")
    case True
    with d [of k] show ?thesis by (subst str_of_nat.simps) simp
  next
    case False
    with 1 d [of "k mod 10"] show ?thesis by (subst str_of_nat.simps) simp
  qed
qed

lemma count_occ_after_line:
  assumes "n \<notin> set m" "m \<noteq> []" "a = t @ [n]"
  shows "count_occ m (a @ b) = count_occ m a + count_occ m b"
proof -
  have "count_occ m (a @ b) = count_occ m (t @ n # b)"
    by (simp add: assms(3))
  also have "\<dots> = count_occ m t + count_occ m b"
    by (rule count_occ_line [OF assms(1,2)])
  also have "count_occ m t = count_occ m a"
    using count_occ_line [OF assms(1,2), of t "[]"] assms(2,3) by simp
  finally show ?thesis .
qed

lemma format_block_ends:
  "\<exists>t. format_block p = t @ ''\<newline>''"
proof -
  obtain i doc where p: "p = (i, doc)" by (cases p)
  have "format_block p =
     (''[Document '' @ str_of_nat (i + 1) @ '']\<newline>''
     @ text doc @ ''\<newline>''
     @ (case metadata doc ''source'' of
          None \<Rightarrow> []
        | Some s \<Rightarrow> if s \<noteq> [] then ''Source: '' @ s @ ''\<newline>'' else [])
     @ ''\<newline>'' @ replicate 40 CHR ''-'' @ ''\<newline>'') @ ''\<newline>''"
    by (simp add: p format_block_def)
  then show ?thesis by blast
qed

lemma count_occ_blocks:
  assumes "CHR ''\<newline>'' \<notin> set m" "m \<noteq> []"
  shows "count_occ m (concat (map format_block ps)) = sum_list (map (\<lambda>p. count_occ m (format_block p)) ps)"
proof (induction ps)
  case Nil
  from assms show ?case by simp
next
  case (Cons p ps)
  obtain t where t: "format_block p = t @ ''\<newline>''"
    using format_block_ends by blast
  have "count_occ m (format_block p @ concat (map format_block ps))
      = count_occ m (format_block p) + count_occ m (concat (map format_block ps))"
    by (rule count_occ_after_line [OF assms t])
  with Cons show ?case by simp
qed

lemma no_bracket_in_digits: "CHR ''['' \<notin> set (str_of_nat k)"
  using digits_of_str_of_nat [of k] by auto

lemma no_S_in_digits: "CHR ''S'' \<notin> set (str_of_nat k)"
  using digits_of_str_of_nat [of k] by auto

lemma format_block_pieces:
  "format_block (i, doc) =
     (''[Document '' @ str_of_nat (i + 1) @ '']'') @ CHR ''\<newline>'' #
       (text doc @ CHR ''\<newline>'' # (source_line doc @ CHR ''\<newline>'' # replicate 40 CHR ''-'' @ ''\<newline>\<newline>''))"
  by (simp add: format_block_def source_line_def)

lemma count_occ_rule:
  assumes "c \<noteq> CHR ''-''" "c \<noteq> CHR ''\<newline>''"
  shows "count_occ (c # m) (replicate 40 CHR ''-'' @ ''\<newline>\<newline>'') = 0"
  using assms by (intro count_occ_absent_head) auto

lemma count_occ_block:
  assumes "CHR ''\<newline>'' \<notin> set (c # m)" "c \<noteq> CHR ''-''"
  shows "count_occ (c # m) (format_block (i, doc)) =
     count_occ (c # m) (''[Document '' @ str_of_nat (i + 1) @ '']'')
     + count_occ (c # m) (text doc)
     + count_occ (c # m) (source_line doc)"
proof -
  have ne: "c # m \<noteq> []" by simp
  have c: "c \<noteq> CHR ''\<newline>''" using assms(1) by auto
  have "\<not> prefix (c # m) (CHR ''\<newline>'' # xs)" for xs
    using c by simp
  then have r: "count_occ (c # m) (CHR ''\<newline>'' # replicate 40 CHR ''-'' @ ''\<newline>\<newline>'') = 0"
    using count_occ_rule [OF assms(2) c, of m] by simp
  have s: "count_occ (c # m) (source_line doc @ CHR ''\<newline>'' # replicate 40 CHR ''-'' @ ''\<newline>\<newline>'')
      = count_occ (c # m) (source_line doc)"
  proof (cases "source_line doc = []")
    case True
    with r show ?thesis by simp
  next
    case False
    then obtain t where t: "source_line doc = t @ ''\<newline>''"
      by (auto simp: source_line_def split: option.splits if_splits)
    have "count_occ (c # m) (t @ CHR ''\<newline>'' # CHR ''\<newline>'' # replicate 40 CHR ''-'' @ ''\<newline>\<newline>'')
        = count_occ (c # m) t + count_occ (c # m) (CHR ''\<newline>'' # replicate 40 CHR ''-'' @ ''\<newline>\<newline>'')"
      by (rule count_occ_line [OF assms(1) ne])
    moreover have "count_occ (c # m) (t @ CHR ''\<newline>'' # []) = count_occ (c # m) t + count_occ (c # m) []"
      by (rule count_occ_line [OF assms(1) ne])
    ultimately show ?thesis using r by (simp add: t)
  qed
  have a: "count_occ (c # m)
        ((''[Document '' @ str_of_nat (i + 1) @ '']'') @ CHR ''\<newline>'' #
          (text doc @ CHR ''\<newline>'' # (source_line doc @ CHR ''\<newline>'' # replicate 40 CHR ''-'' @ ''\<newline>\<newline>'')))
      = count_occ (c # m) (''[Document '' @ str_of_nat (i + 1) @ '']'')
        + count_occ (c # m)
            (text doc @ CHR ''\<newline>'' # (source_line doc @ CHR ''\<newline>'' # replicate 40 CHR ''-'' @ ''\<newline>\<newline>''))"
    by (rule count_occ_line [OF assms(1) ne])
  have b: "count_occ (c # m)
        (text doc @ CHR ''\<newline>'' # (source_line doc @ CHR ''\<newline>'' # replicate 40 CHR ''-'' @ ''\<newline>\<newline>''))
      = count_occ (c # m) (text doc)
        + count_occ (c # m) (source_line doc @ CHR ''\<newline>'' # replicate 40 CHR ''-'' @ ''\<newline>\<newline>'')"
    by (rule count_occ_line [OF assms(1) ne])
  show ?thesis
    by (simp only: format_block_pieces a b s add.assoc)
qed

lemma count_marker_line:
  "count_occ ''[Document '' (''[Document '' @ str_of_nat k @ '']'') = 1"
  by (simp add: count_occ_skip no_bracket_in_digits)

lemma count_source_in_marker_line:
  "count_occ ''Source: '' (''[Document '' @ str_of_nat k @ '']'') = 0"
  by (simp add: count_occ_skip no_S_in_digits)

lemma marker_count_block:
  assumes "\<not> sublist ''[Document '' (text doc)"
    and "\<forall>s. metadata doc ''source'' = Some s \<longrightarrow> \<not> sublist ''[Document '' s"
  shows "count_occ ''[Document '' (format_block (i, doc)) = 1"
proof -
  have t: "count_occ ''[Document '' (text doc) = 0"
    using assms(1) by (simp add: count_occ_zero_iff)
  have "count_occ ''[Document '' (''Source: '' @ s @ ''\<newline>'') = 0"
    if "metadata doc ''source'' = Some s" for s
  proof -
    have "count_occ ''[Document '' s = 0"
      using assms(2) that by (simp add: count_occ_zero_iff)
    moreover have "count_occ ''[Document '' (s @ CHR ''\<newline>'' # []) = count_occ ''[Document '' s + count_occ ''[Document '' []"
      by (rule count_occ_line) simp_all
    ultimately show ?thesis by simp
  qed
  then have s: "count_occ ''[Document '' (source_line doc) = 0"
    by (simp add: source_line_def split: option.splits)
  have "count_occ ''[Document '' (format_block (i, doc)) =
     count_occ ''[Document '' (''[Document '' @ str_of_nat (i + 1) @ '']'')
     + count_occ ''[Document '' (text doc)
     + count_occ ''[Document '' (source_line doc)"
    by (rule count_occ_block) simp_all
  then show ?thesis
    by (simp only: count_marker_line t s)
qed

lemma source_count_block:
  assumes "\<not> sublist ''Source: '' (text doc)"
    and "\<forall>s. metadata doc ''source'' = Some s \<longrightarrow> \<not> sublist ''Source: '' s"
  shows "count_occ ''Source: '' (format_block (i, doc))
     = (if \<exists>s. metadata doc ''source'' = Some s \<and> s \<noteq> [] then 1 else 0)"
proof -
  have t: "count_occ ''Source: '' (text doc) = 0"
    using assms(1) by (simp add: count_occ_zero_iff)
  have "count_occ ''Source: '' (''Source: '' @ s @ ''\<newline>'') = 1"
    if "metadata doc ''source'' = Some s" for s
  proof -
    have "count_occ ''Source: '' s = 0"
      using assms(2) that by (simp add: count_occ_zero_iff)
    moreover have "count_occ ''Source: '' (s @ CHR ''\<newline>'' # []) = count_occ ''Source: '' s + count_occ ''Source: '' []"
      by (rule count_occ_line) simp_all
    ultimately show ?thesis by simp
  qed
  then have s: "count_occ ''Source: '' (source_line doc)
      = (if \<exists>s. metadata doc ''source'' = Some s \<and> s \<noteq> [] then 1 else 0)"
    by (simp add: source_line_def split: option.splits)
  have "count_occ ''Source: '' (format_block (i, doc)) =
     count_occ ''Source: '' (''[Document '' @ str_of_nat (i + 1) @ '']'')
     + count_occ ''Source: '' (text doc)
     + count_occ ''Source: '' (source_line doc)"
    by (rule count_occ_block) simp_all
  then show ?thesis
    by (simp only: count_source_in_marker_line t s)
qed

lemma sum_list_ones:
  "(\<forall>p \<in> set ps. f p = (1::nat)) \<Longrightarrow> sum_list (map f ps) = length ps"
  by (induction ps) auto

lemma sum_list_indicator:
  "(\<forall>p \<in> set ps. f p = (if P (snd p) then 1 else (0::nat)))
     \<Longrightarrow> sum_list (map f ps) = length (filter P (map snd ps))"
  by (induction ps) auto

lemma format_for_prompt_blocks:
  "docs \<noteq> [] \<Longrightarrow>
     format_for_prompt docs =
       ''RELEVANT INFORMATION:\<newline>\<newline>'' @ concat (map format_block (enumerate 0 docs))"
  by (simp only: format_for_prompt_def format_loop_concat if_False)

lemma marker_count:
  assumes "docs \<noteq> []"
    and "\<forall>doc \<in> set docs. \<not> sublist ''[Document '' (text doc)
           \<and> (\<forall>s. metadata doc ''source'' = Some s \<longrightarrow> \<not> sublist ''[Document '' s)"
  shows "count_occ ''[Document '' (format_for_prompt docs) = length docs"
proof -
  have "count_occ ''[Document '' (''RELEVANT INFORMATION:\<newline>\<newline>'' @ concat (map format_block (enumerate 0 docs)))
      = count_occ ''[Document '' (concat (map format_block (enumerate 0 docs)))"
    by (rule count_occ_skip) simp
  also have "\<dots> = sum_list (map (\<lambda>p. count_occ ''[Document '' (format_block p)) (enumerate 0 docs))"
    by (rule count_occ_blocks) simp_all
  also have "\<dots> = length (enumerate 0 docs)"
  proof (rule sum_list_ones, rule ballI)
    fix p assume m: "p \<in> set (enumerate 0 docs)"
    obtain i doc where p: "p = (i, doc)" by (cases p)
    from m have d: "doc \<in> set docs"
      unfolding p by (auto simp: in_set_enumerate_eq)
    from assms(2) d show "count_occ ''[Document '' (format_block p) = 1"
      unfolding p by (intro marker_count_block) auto
  qed
  finally show ?thesis
    by (simp only: format_for_prompt_blocks [OF assms(1)] length_enumerate)
qed

lemma source_count:
  assumes "docs \<noteq> []"
    and "\<forall>doc \<in> set docs. \<not> sublist ''Source: '' (text doc)
           \<and> (\<forall>s. metadata doc ''source'' = Some s \<longrightarrow> \<not> sublist ''Source: '' s)"
  shows "count_occ ''Source: '' (format_for_prompt docs) = length (filter has_source docs)"
proof -
  have "count_occ ''Source: '' (''RELEVANT INFORMATION:\<newline>\<newline>'' @ concat (map format_block (enumerate 0 docs)))
      = count_occ ''Source: '' (concat (map format_block (enumerate 0 docs)))"
    by (rule count_occ_skip) simp
  also have "\<dots> = sum_list (map (\<lambda>p. count_occ ''Source: '' (format_block p)) (enumerate 0 docs))"
    by (rule count_occ_blocks) simp_all
  also have "\<dots> = length (filter has_source (map snd (enumerate 0 docs)))"
  proof (rule sum_list_indicator, rule ballI)
    fix p assume m: "p \<in> set (enumerate 0 docs)"
    obtain i doc where p: "p = (i, doc)" by (cases p)
    from m have d: "doc \<in> set docs"
      unfolding p by (auto simp: in_set_enumerate_eq)
    have "count_occ ''Source: '' (format_block (i, doc))
        = (if \<exists>s. metadata doc ''source'' = Some s \<and> s \<noteq> [] then 1 else 0)"
      using assms(2) d by (intro source_count_block) auto
    then show "count_occ ''Source: '' (format_block p) = (if has_source (snd p) then 1 else 0)"
      unfolding p by (simp add: has_source_def split: option.splits)
  qed
  finally show ?thesis
    by (simp only: format_for_prompt_blocks [OF assms(1)] map_snd_enumerate)
qed

text \<open>
  Claim C6, as stated, fails for a document whose text itself holds a marker: one document,
  two occurrences of \<open>[Document\<close>.
\<close>

theorem marker_count_exceeds_documents:
  "count_occ ''[Document ''
     (format_for_prompt
        [\<lparr>text = ''See [Document 7].'', metadata = Map.empty, doc_id = ''chunk_0'', distance = None\<rparr>])
   = 2"
  by (simp add: format_for_prompt_def str_of_nat_1 count_occ_rule)

text \<open>
  Claim C6, amended. \<open>format_for_prompt\<close> of the empty sequence is exactly
  \<open>No relevant information found.\<close>. For a non-empty sequence it is the header followed by
  one block per document, in order, the block of the document at index \<open>i\<close> starting with
  the marker \<open>[Document i+1]\<close> and holding a \<open>Source:\<close> line exactly when the metadata has
  a non-empty source. If no text and no source of the documents contains \<open>[Document \<close>,
  the rendered string has exactly \<open>len(docs)\<close> occurrences of it; if none contains
  \<open>Source: \<close>, the rendered string has as many occurrences of it as there are documents
  with a non-empty source.
\<close>

theorem format_for_prompt_markers:
  "format_for_prompt [] = ''No relevant information found.''
   \<and> (docs \<noteq> [] \<longrightarrow>
        format_for_prompt docs =
          ''RELEVANT INFORMATION:\<newline>\<newline>'' @ concat (map format_block (enumerate 0 docs)))
   \<and> (docs \<noteq> []
        \<and> (\<forall>doc \<in> set docs. \<not> sublist ''[Document '' (text doc)
              \<and> (\<forall>s. metadata doc ''source'' = Some s \<longrightarrow> \<not> sublist ''[Document '' s))
        \<longrightarrow> count_occ ''[Document '' (format_for_prompt docs) = length docs)
   \<and> (docs \<noteq> []
        \<and> (\<forall>doc \<in> set docs. \<not> sublist ''Source: '' (text doc)
              \<and> (\<forall>s. metadata doc ''source'' = Some s \<longrightarrow> \<not> sublist ''Source: '' s))
        \<longrightarrow> count_occ ''Source: '' (format_for_prompt docs) = length (filter has_source docs))"
  using format_for_prompt_blocks [of docs] marker_count [of docs] source_count [of docs]
  by (simp add: format_for_prompt_def)

text \<open>Two documents, the first with a source, the second with an empty one.\<close>

theorem format_for_prompt_markers_witness:
  "count_occ ''[Document ''
     (format_for_prompt
        [\<lparr>text = ''Learn SQL.'', metadata = [''source'' \<mapsto> ''a.txt''], doc_id = ''chunk_0'', distance = None\<rparr>,
         \<lparr>text = ''Learn Git.'', metadata = [''source'' \<mapsto> ''''], doc_id = ''chunk_1'', distance = None\<rparr>]) = 2
   \<and> count_occ ''Source: ''
     (format_for_prompt
        [\<lparr>text = ''Learn SQL.'', metadata = [''source'' \<mapsto> ''a.txt''], doc_id = ''chunk_0'', distance = None\<rparr>,
         \<lparr>text = ''Learn Git.'', metadata = [''source'' \<mapsto> ''''], doc_id = ''chunk_1'', distance = None\<rparr>]) = 1
   \<and> format_for_prompt
        [\<lparr>text = ''Learn SQL.'', metadata = [''source'' \<mapsto> ''a.txt''], doc_id = ''chunk_0'', distance = None\<rparr>,
         \<lparr>text = ''Learn Git.'', metadata = [''source'' \<mapsto> ''''], doc_id = ''chunk_1'', distance = None\<rparr>]
     = ''RELEVANT INFORMATION:\<newline>\<newline>[Document 1]\<newline>Learn SQL.\<newline>Source: a.txt\<newline>\<newline>----------------------------------------\<newline>\<newline>[Document 2]\<newline>Learn Git.\<newline>\<newline>----------------------------------------\<newline>\<newline>''"
  using format_for_prompt_markers [of
        "[\<lparr>text = ''Learn SQL.'', metadata = [''source'' \<mapsto> ''a.txt''], doc_id = ''chunk_0'', distance = None\<rparr>,
         \<lparr>text = ''Learn Git.'', metadata = [''source'' \<mapsto> ''''], doc_id = ''chunk_1'', distance = None\<rparr>]"]
  by (simp add: sublist_Cons_right has_source_def format_block_def enumerate_eq_zip upt_rec
      str_of_nat_1 str_of_nat_2 eval_nat_numeral)

subsection \<open>Chunker: the minimum length\<close>

text \<open>
  Claim C3 on the code. The length test of lines 39 and 58 reads the buffer, the chunk
  holds the stripped buffer. With the default options, a text of 98 letters, a full stop
  and a final newline is split into that sentence and an empty one; the buffer gets a space
  for the empty sentence, passes the test with 100 characters and is emitted with 99. With
  a minimum of 6, the buffer \<open>" bbbb."\<close>, which starts with the space that follows an empty
  overlap, is emitted as a chunk of 5 characters between two others.
\<close>

theorem chunk_shorter_than_minimum:
  "map (\<lambda>c. length (text c))
     (chunk_text \<lparr>chunk_size = 500, chunk_overlap = 50, min_chunk_length = 100\<rparr>
        (replicate 98 CHR ''a'' @ ''.\<newline>'') [''source'' \<mapsto> ''a.txt'']) = [99]
   \<and> map text
     (chunk_text \<lparr>chunk_size = 10, chunk_overlap = 50, min_chunk_length = 6\<rparr>
        ''aaaaaaaa. bbbb. cccccccccc.'' [''source'' \<mapsto> ''a.txt''])
     = [''aaaaaaaa.'', ''bbbb.'', ''cccccccccc.'']"
proof -
  have r: "replicate 98 CHR ''a'' = ''aaaaaaaaaaaaaaaaaaaaaaaaaaaaaaaaaaaaaaaaaaaaaaaaaaaaaaaaaaaaaaaaaaaaaaaaaaaaaaaaaaaaaaaaaaaaaaaaaa''"
    by (simp add: eval_nat_numeral)
  show ?thesis
    unfolding r by (simp add: chunker_eval)
qed

subsection \<open>Chunker: the overlap of consecutive chunks\<close>

lemma py_split_go_proper:
  assumes "\<forall>ch \<in> set acc. \<not> is_space ch" "w \<in> set (py_split_go acc s)"
  shows "proper_word w"
  using assms
proof (induction s arbitrary: acc)
  case Nil
  then show ?case
    by (cases "acc = []") (simp_all add: proper_word_def)
next
  case (Cons c cs)
  show ?case
  proof (cases "is_space c")
    case True
    show ?thesis
    proof (cases "acc = []")
      case True
      with \<open>is_space c\<close> Cons.prems(2) have "w \<in> set (py_split_go [] cs)" by simp
      with Cons.IH [of "[]"] show ?thesis by simp
    next
      case False
      with True Cons.prems(2) have "w = acc \<or> w \<in> set (py_split_go [] cs)" by simp
      then show ?thesis
      proof
        assume "w = acc"
        with False Cons.prems(1) show ?thesis by (simp add: proper_word_def)
      next
        assume "w \<in> set (py_split_go [] cs)"
        with Cons.IH [of "[]"] show ?thesis by simp
      qed
    qed
  next
    case False
    with Cons.prems(2) have "w \<in> set (py_split_go (acc @ [c]) cs)" by simp
    moreover from False Cons.prems(1) have "\<forall>ch \<in> set (acc @ [c]). \<not> is_space ch" by simp
    ultimately show ?thesis using Cons.IH [of "acc @ [c]"] by blast
  qed
qed

lemma py_split_proper: "w \<in> set (py_split s) \<Longrightarrow> proper_word w"
  unfolding py_split_def by (rule py_split_go_proper [of "[]"]) simp_all

lemma py_split_go_spaces:
  "\<forall>ch \<in> set b. is_space ch \<Longrightarrow> py_split_go acc b = (if acc = [] then [] else [acc])"
  by (induction b arbitrary: acc) auto

lemma py_split_go_trailing:
  "\<forall>ch \<in> set b. is_space ch \<Longrightarrow> py_split_go acc (s @ b) = py_split_go acc s"
  by (induction acc s rule: py_split_go.induct) (auto simp: py_split_go_spaces)

lemma py_split_leading: "py_split (dropWhile is_space s) = py_split s"
  by (induction s) (auto simp: py_split_def)

lemma strip_decomposition:
  "\<exists>b. (\<forall>ch \<in> set b. is_space ch) \<and> dropWhile is_space s = py_strip s @ b"
proof -
  define u where "u = dropWhile is_space s"
  have "rev u = takeWhile is_space (rev u) @ dropWhile is_space (rev u)"
    by simp
  then have "u = rev (dropWhile is_space (rev u)) @ rev (takeWhile is_space (rev u))"
    by (metis rev_append rev_rev_ident)
  moreover have "\<forall>ch \<in> set (rev (takeWhile is_space (rev u))). is_space ch"
    by (auto dest: set_takeWhileD)
  ultimately show ?thesis
    unfolding u_def py_strip_def by blast
qed

lemma py_split_strip: "py_split (py_strip s) = py_split s"
proof -
  obtain b where b: "\<forall>ch \<in> set b. is_space ch" "dropWhile is_space s = py_strip s @ b"
    using strip_decomposition by blast
  have "py_split s = py_split (py_strip s @ b)"
    using py_split_leading [of s] b(2) by simp
  also have "\<dots> = py_split (py_strip s)"
    unfolding py_split_def by (rule py_split_go_trailing [OF b(1)])
  finally show ?thesis by simp
qed

lemma proper_word_ends:
  "proper_word w \<Longrightarrow> w \<noteq> [] \<and> \<not> is_space (hd w) \<and> \<not> is_space (last w)"
  unfolding proper_word_def using hd_in_set [of w] last_in_set [of w] by blast

lemma py_join_proper:
  assumes "ws \<noteq> []" "\<forall>w \<in> set ws. proper_word w"
  shows "py_join '' '' ws \<noteq> [] \<and> \<not> is_space (hd (py_join '' '' ws))
     \<and> \<not> is_space (last (py_join '' '' ws))"
  using assms
proof (induction ws)
  case Nil
  then show ?case by simp
next
  case (Cons x ws)
  from Cons.prems have x: "x \<noteq> []" "\<not> is_space (hd x)" "\<not> is_space (last x)"
    using proper_word_ends [of x] by auto
  show ?case
  proof (cases ws)
    case Nil
    with x show ?thesis by simp
  next
    case (Cons y ys)
    with Cons.IH Cons.prems
    have "py_join '' '' (y # ys) \<noteq> []" "\<not> is_space (last (py_join '' '' (y # ys)))"
      by auto
    with x Cons show ?thesis by simp
  qed
qed

lemma strip_keeps_prefix:
  assumes "prefix p s" "p = [] \<or> (\<not> is_space (hd p) \<and> \<not> is_space (last p))"
  shows "prefix p (py_strip s)"
proof (cases "p = []")
  case True
  then show ?thesis by simp
next
  case False
  with assms(2) have ends: "\<not> is_space (hd p)" "\<not> is_space (last p)" by auto
  from assms(1) obtain r where s: "s = p @ r" by (auto simp: prefix_def)
  from False ends(1) have lead: "dropWhile is_space s = s"
    unfolding s by (cases p) auto
  have "\<exists>x. dropWhile is_space (rev r @ rev p) = x @ rev p"
  proof (cases "\<forall>ch \<in> set (rev r). is_space ch")
    case True
    from False ends(2) have "dropWhile is_space (rev p) = rev p"
      by (cases p rule: rev_cases) auto
    with True show ?thesis
      by (simp add: dropWhile_append)
  next
    case False
    then obtain ch where "ch \<in> set (rev r)" "\<not> is_space ch" by blast
    then have "dropWhile is_space (rev r @ rev p) = dropWhile is_space (rev r) @ rev p"
      by (rule dropWhile_append1)
    then show ?thesis by blast
  qed
  then obtain x where "dropWhile is_space (rev r @ rev p) = x @ rev p" ..
  then have "py_strip s = p @ rev x"
    unfolding py_strip_def lead by (simp add: s)
  then show ?thesis by simp
qed

lemma overlap_seed_ends:
  "overlap_seed c a = [] \<or> (\<not> is_space (hd (overlap_seed c a)) \<and> \<not> is_space (last (overlap_seed c a)))"
proof (cases "drop (length (py_split a) - nat (chunk_overlap c)) (py_split a) = []")
  case True
  then show ?thesis by (simp add: overlap_seed_def Let_def)
next
  case False
  have "\<forall>w \<in> set (drop (length (py_split a) - nat (chunk_overlap c)) (py_split a)). proper_word w"
    by (auto dest: in_set_dropD py_split_proper)
  from py_join_proper [OF False this] show ?thesis
    by (simp add: overlap_seed_def Let_def)
qed

lemma seeded_strip:
  assumes "seeded c a cur"
  shows "seeded c a (py_strip cur)"
  unfolding seeded_def
proof (intro impI)
  assume "0 \<le> chunk_overlap c \<and> chunk_overlap c < int (length (py_split a))"
  with assms have "prefix (overlap_seed c a) cur"
    by (simp add: seeded_def)
  then show "prefix (overlap_seed c a) (py_strip cur)"
    by (rule strip_keeps_prefix [OF _ overlap_seed_ends])
qed

lemma seeded_append: "seeded c a cur \<Longrightarrow> seeded c a (cur @ x)"
  unfolding seeded_def by (auto intro: prefix_prefix)

lemma slice_last_words:
  "0 < n \<Longrightarrow> n < int (length ws) \<Longrightarrow> py_slice_from (- n) ws = drop (length ws - nat n) ws"
  by (simp add: py_slice_from_def Let_def nat_diff_distrib)

lemma seeded_new_buffer:
  "seeded c (py_strip cur)
     ((if int (length (py_split cur)) > chunk_overlap c
       then py_join '' '' (py_slice_from (- chunk_overlap c) (py_split cur)) else [])
      @ '' '' @ sentence)"
proof (cases "0 < chunk_overlap c")
  case True
  then show ?thesis
    by (simp add: seeded_def overlap_seed_def py_split_strip slice_last_words Let_def)
next
  case False
  then show ?thesis
    by (simp add: seeded_def overlap_seed_def py_split_strip Let_def)
qed

lemma chunks_seeded_emit:
  assumes "chunks_seeded c chunks cur"
  shows "successively (seeded c) (map text (chunks @ [\<lparr>text = py_strip cur, metadata = md\<rparr>]))"
proof (cases "chunks = []")
  case True
  then show ?thesis by simp
next
  case False
  with assms have "seeded c (text (last chunks)) (py_strip cur)"
    by (simp add: chunks_seeded_def seeded_strip)
  with False have "seeded c (last (map text chunks)) (py_strip cur)"
    by (simp add: last_map)
  with assms show ?thesis
    by (simp add: chunks_seeded_def successively_append_iff)
qed

lemma chunk_loop_seeded:
  assumes "chunk_loop c md chunks cur ss = (chunks', cur')" "chunks_seeded c chunks cur"
  shows "chunks_seeded c chunks' cur'"
  using assms
proof (induction ss arbitrary: chunks cur)
  case Nil
  then show ?case by simp
next
  case (Cons sentence rest)
  show ?case
  proof (cases "int (length cur) + int (length sentence) > chunk_size c
         \<and> int (length cur) \<ge> min_chunk_length c")
    case True
    let ?new = "\<lparr>text = py_strip cur, metadata = md\<rparr>"
    let ?buf = "(if int (length (py_split cur)) > chunk_overlap c
       then py_join '' '' (py_slice_from (- chunk_overlap c) (py_split cur)) else [])
      @ '' '' @ sentence"
    from True Cons.prems(1) have run: "chunk_loop c md (chunks @ [?new]) ?buf rest = (chunks', cur')"
      by (simp add: Let_def)
    have "chunks_seeded c (chunks @ [?new]) ?buf"
      unfolding chunks_seeded_def
      using chunks_seeded_emit [OF Cons.prems(2), of md] seeded_new_buffer [of c cur sentence]
      by simp
    from Cons.IH [OF run this] show ?thesis .
  next
    case False
    let ?buf = "if cur \<noteq> [] then cur @ '' '' @ sentence else sentence"
    from False Cons.prems(1) have run: "chunk_loop c md chunks ?buf rest = (chunks', cur')"
      by (simp split: if_splits)
    have buf: "?buf = cur @ (if cur \<noteq> [] then '' '' @ sentence else sentence)"
      by simp
    have "chunks \<noteq> [] \<longrightarrow> seeded c (text (last chunks)) ?buf"
    proof
      assume "chunks \<noteq> []"
      with Cons.prems(2) have "seeded c (text (last chunks)) cur"
        by (simp add: chunks_seeded_def)
      then have "seeded c (text (last chunks)) (cur @ (if cur \<noteq> [] then '' '' @ sentence else sentence))"
        by (rule seeded_append)
      then show "seeded c (text (last chunks)) ?buf"
        by (simp only: buf)
    qed
    with Cons.prems(2) have "chunks_seeded c chunks ?buf"
      by (simp only: chunks_seeded_def simp_thms)
    from Cons.IH [OF run this] show ?thesis .
  qed
qed

lemma chunk_text_seeded: "successively (seeded c) (map text (chunk_text c t md))"
proof -
  obtain chunks cur where run: "chunk_loop c md [] [] (re_split_sentences t) = (chunks, cur)"
    by (cases "chunk_loop c md [] [] (re_split_sentences t)")
  have "chunks_seeded c [] []"
    by (simp add: chunks_seeded_def)
  from chunk_loop_seeded [OF run this] have inv: "chunks_seeded c chunks cur" .
  show ?thesis
  proof (cases "cur \<noteq> [] \<and> int (length cur) \<ge> min_chunk_length c")
    case True
    with run have "chunk_text c t md = chunks @ [\<lparr>text = py_strip cur, metadata = md\<rparr>]"
      by (simp add: chunk_text_def)
    with chunks_seeded_emit [OF inv, of md] show ?thesis by simp
  next
    case False
    with run have "chunk_text c t md = chunks"
      by (auto simp: chunk_text_def)
    with inv show ?thesis by (simp add: chunks_seeded_def)
  qed
qed

lemma successively_nth:
  "successively P xs \<Longrightarrow> Suc i < length xs \<Longrightarrow> P (xs ! i) (xs ! Suc i)"
proof (induction P xs arbitrary: i rule: successively.induct)
  case (3 P x y xs)
  then show ?case by (cases i) auto
qed simp_all

text \<open>
  Claim C4, as stated, fails when the first chunk has exactly \<open>chunk_overlap\<close> words: the
  test of line 48 is strict, the overlap is empty, and the second chunk begins with its own
  sentence.
\<close>

theorem no_overlap_seed_at_equal_word_count:
  "map text (chunk_text \<lparr>chunk_size = 12, chunk_overlap = 3, min_chunk_length = 6\<rparr>
       ''aa bb cc. dd ee ff. gg hh.'' Map.empty)
     = [''aa bb cc.'', ''dd ee ff.'', ''gg hh.'']
   \<and> py_split ''aa bb cc.'' = [''aa'', ''bb'', ''cc.'']
   \<and> py_join '' '' [''aa'', ''bb'', ''cc.''] = ''aa bb cc.''
   \<and> \<not> prefix ''aa bb cc.'' ''dd ee ff.''"
  by (simp add: chunker_eval)

text \<open>
  Claim C4, amended. For two consecutive chunks of one text, when the first chunk has more
  than \<open>chunk_overlap\<close> words (and \<open>chunk_overlap\<close> is not negative), the second chunk
  begins with the last \<open>chunk_overlap\<close> words of the first chunk's text, joined by single
  spaces.
\<close>

theorem overlap_seed_of_next_chunk:
  assumes "cs = map text (chunk_text c t md)"
    and "Suc i < length cs"
    and "ws = py_split (cs ! i)"
    and "0 \<le> chunk_overlap c"
    and "chunk_overlap c < int (length ws)"
  shows "prefix (py_join '' '' (drop (length ws - nat (chunk_overlap c)) ws)) (cs ! Suc i)"
proof -
  have "seeded c (cs ! i) (cs ! Suc i)"
    unfolding assms(1)
    using successively_nth [OF chunk_text_seeded] assms(1,2) by blast
  with assms(3-5) show ?thesis
    by (simp add: seeded_def overlap_seed_def Let_def)
qed

text \<open>An overlap of two words: the second chunk begins with \<open>bb cc.\<close>.\<close>

theorem overlap_seed_of_next_chunk_witness:
  "map text (chunk_text \<lparr>chunk_size = 12, chunk_overlap = 2, min_chunk_length = 6\<rparr>
       ''aa bb cc. dd ee ff. gg hh.'' Map.empty)
     = [''aa bb cc.'', ''bb cc. dd ee ff.'', ''ee ff. gg hh.'']
   \<and> py_split ''aa bb cc.'' = [''aa'', ''bb'', ''cc.'']
   \<and> prefix ''bb cc.'' ''bb cc. dd ee ff.''"
proof -
  have cs: "map text (chunk_text \<lparr>chunk_size = 12, chunk_overlap = 2, min_chunk_length = 6\<rparr>
          ''aa bb cc. dd ee ff. gg hh.'' Map.empty)
      = [''aa bb cc.'', ''bb cc. dd ee ff.'', ''ee ff. gg hh.'']"
    by (simp add: chunker_eval)
  have ws: "py_split ''aa bb cc.'' = [''aa'', ''bb'', ''cc.'']"
    by (simp add: py_split_def is_space_def)
  then have ws0: "[''aa'', ''bb'', ''cc.'']
      = py_split ([''aa bb cc.'', ''bb cc. dd ee ff.'', ''ee ff. gg hh.''] ! 0)"
    by simp
  have "prefix
      (py_join '' ''
        (drop (length [''aa'', ''bb'', ''cc.'']
               - nat (chunk_overlap \<lparr>chunk_size = 12, chunk_overlap = 2, min_chunk_length = 6\<rparr>))
          [''aa'', ''bb'', ''cc.'']))
      ([''aa bb cc.'', ''bb cc. dd ee ff.'', ''ee ff. gg hh.''] ! Suc 0)"
    by (rule overlap_seed_of_next_chunk [OF cs [symmetric] _ ws0]) simp_all
  then have p: "prefix ''bb cc.'' ''bb cc. dd ee ff.''"
    by simp
  from cs ws p show ?thesis by (intro conjI)
qed

subsection \<open>Generator: the dynamic-search flag\<close>










subsection \<open>Generator: merging the dynamic content\<close>



subsection \<open>Generator: truncation of the dynamic content\<close>

text \<open>
  Claim C8. When the search returns results, a combined content of more than 4000
  characters is returned as its first 4000 characters followed by one truncation marker
  (4023 characters in all); a combined content of at most 4000 characters is returned as
  it is.
\<close>

theorem perform_dynamic_search_truncation:
  assumes "search d q 3 \<noteq> []"
    and "combined = combined_content d (search d q 3)"
  shows "(length combined > 4000 \<longrightarrow>
            perform_dynamic_search d q = take 4000 combined @ ''... [content truncated]''
            \<and> length (perform_dynamic_search d q) = 4023)
     \<and> (length combined \<le> 4000 \<longrightarrow> perform_dynamic_search d q = combined)"
  using assms by (simp add: perform_dynamic_search_def Let_def)

text \<open>A combined content of 5000 characters, and a short one.\<close>

theorem perform_dynamic_search_truncation_witness:
  "length (combined_content
       \<lparr>search = (\<lambda>query n. one_page ''u''), fetch_page = (\<lambda>u. Body (replicate 4968 CHR ''x''))\<rparr>
       (one_page ''u'')) = 5000
   \<and> perform_dynamic_search
       \<lparr>search = (\<lambda>query n. one_page ''u''), fetch_page = (\<lambda>u. Body (replicate 4968 CHR ''x''))\<rparr> ''q''
     = ''[Source 1: u]\<newline>Content from u:\<newline>\<newline>'' @ replicate 3969 CHR ''x''
         @ ''... [content truncated]''
   \<and> perform_dynamic_search
       \<lparr>search = (\<lambda>query n. one_page ''u''), fetch_page = (\<lambda>u. Body ''SQL basics'')\<rparr> ''q''
     = ''[Source 1: u]\<newline>Content from u:\<newline>\<newline>SQL basics\<newline>''"
  using perform_dynamic_search_truncation [of
      "\<lparr>search = (\<lambda>query n. one_page ''u''), fetch_page = (\<lambda>u. Body (replicate 4968 CHR ''x''))\<rparr>"
      "''q''" "''[Source 1: u]\<newline>Content from u:\<newline>\<newline>'' @ replicate 4968 CHR ''x'' @ ''\<newline>''"]
    perform_dynamic_search_truncation [of
      "\<lparr>search = (\<lambda>query n. one_page ''u''), fetch_page = (\<lambda>u. Body ''SQL basics'')\<rparr>"
      "''q''" "''[Source 1: u]\<newline>Content from u:\<newline>\<newline>SQL basics\<newline>''"]
  by (simp add: combined_content_def extract_content_def one_page_def str_of_nat_1)

subsection \<open>Generator: errors of the model\<close>

text \<open>
  Claim C9. When the prompt has been built and the call of the model on it raises an
  exception \<open>e\<close>, \<open>generate\<close> returns the text \<open>Error during text generation: e\<close>, and
  \<open>generate_response\<close> returns the envelope with the question, that text as the answer,
  and the sources and the flag as gathered before the call.
\<close>

theorem generation_error_is_answer:
  assumes "gather_context g q = (context, srcs, dc)"
    and "build_prompt fmt (prompt_template g) context q = Inr prompt"
    and "(case model (llm g) of None \<Rightarrow> load_model (llm g) | Some m \<Rightarrow> Some m) = Some m"
    and "m prompt = Raises e"
  shows "generate (llm g) prompt = ''Error during text generation: '' @ e
     \<and> generate_response fmt g q =
         Inr \<lparr>question = q, answer = ''Error during text generation: '' @ e, sources = srcs,
              used_dynamic_search = (dc \<noteq> None)\<rparr>"
proof -
  have "generate (llm g) prompt = ''Error during text generation: '' @ e"
    using assms(3,4) by (auto simp: generate_def call_model_def split: option.splits)
  then show ?thesis
    using assms(1,2) by (simp add: generate_response_def)
qed

text \<open>A model that raises \<open>out of memory\<close>.\<close>

theorem generation_error_is_answer_witness:
  "generate_response no_template_format
     (web_generator [sql_document] (one_page ''u'') (Body ''SQL basics'') failing_llm) ''q''
   = Inr \<lparr>question = ''q'', answer = ''Error during text generation: out of memory'',
          sources = [''a.txt'', ''Dynamic Web Search''], used_dynamic_search = True\<rparr>"
  using generation_error_is_answer [of
      "web_generator [sql_document] (one_page ''u'') (Body ''SQL basics'') failing_llm" "''q''"
      "fst (gather_context (web_generator [sql_document] (one_page ''u'') (Body ''SQL basics'') failing_llm) ''q'')"
      "[''a.txt'', ''Dynamic Web Search'']"
      "Some ''[Source 1: u]\<newline>Content from u:\<newline>\<newline>SQL basics\<newline>''"
      no_template_format
      "projr (build_prompt no_template_format []
         (fst (gather_context (web_generator [sql_document] (one_page ''u'') (Body ''SQL basics'') failing_llm) ''q'')) ''q'')"
      "\<lambda>prompt. Raises ''out of memory''" "''out of memory''"]
  by (simp add: gather_context_def retrieve_def is_content_relevant_def
      perform_dynamic_search_def combined_content_def extract_content_def format_for_prompt_def
      build_prompt_def Let_def example_defs str_of_nat_1 sublist_Cons_right)

subsection \<open>Generator: display of the sources\<close>

lemma sources_loop_append:
  "sources_loop acc i xs = acc @ sources_loop [] i xs"
proof (induction xs arbitrary: acc i)
  case Nil
  then show ?case by simp
next
  case (Cons x xs)
  show ?case
    using Cons.IH [of "acc @ str_of_nat (i + 1) @ ''. '' @ x @ ''\<newline>''" "i + 1"]
      Cons.IH [of acc "i + 1"]
      Cons.IH [of "str_of_nat (i + 1) @ ''. '' @ x @ ''\<newline>''" "i + 1"]
      Cons.IH [of "[]" "i + 1"]
    by simp
qed

lemma sources_loop_concat:
  "sources_loop acc i xs =
     acc @ concat (map (\<lambda>(j, source).
              if source \<noteq> [] \<and> source \<noteq> ''Unknown''
              then str_of_nat (j + 1) @ ''. '' @ source @ ''\<newline>'' else [])
            (enumerate i xs))"
  by (induction xs arbitrary: acc i) auto

lemma format_response_with_sources_eq:
  "format_response_with_sources list_of_set r =
     answer r
     @ (if used_dynamic_search r
        then ''\<newline>\<newline>[Note: This response includes information from a real-time web search]''
        else [])
     @ (if sources r = [] then []
        else ''\<newline>\<newline>Sources:\<newline>''
          @ concat (map (\<lambda>(i, source).
              if source \<noteq> [] \<and> source \<noteq> ''Unknown''
              then str_of_nat (i + 1) @ ''. '' @ source @ ''\<newline>'' else [])
            (enumerate 0 (list_of_set (sources r)))))"
  by (simp add: format_response_with_sources_def Let_def sources_loop_concat)

lemma order_with_two_first:
  assumes "x \<in> set xs" "s \<in> set xs" "x \<noteq> s"
  shows "distinct (x # s # remdups (filter (\<lambda>y. y \<noteq> x \<and> y \<noteq> s) xs))
     \<and> set (x # s # remdups (filter (\<lambda>y. y \<noteq> x \<and> y \<noteq> s) xs)) = set xs"
  using assms by auto

text \<open>
  Claim C10. \<open>format_response_with_sources\<close> prints the answer, the note when the flag is
  set, and, when there are sources, one line per entry of \<open>list(set(sources))\<close> that is
  neither empty nor \<open>Unknown\<close>, numbered by the entry's position in that list plus one: an
  entry that is not printed still takes its number. So whenever the sources hold \<open>Unknown\<close>
  or the empty string and a printable source \<open>s\<close>, some order of the set prints \<open>s\<close> first
  with the number 2; and of two printable sources either may be printed before the other,
  whatever the order in which they were gathered.
\<close>

theorem source_numbering_skips:
  "format_response_with_sources list_of_set r =
     answer r
     @ (if used_dynamic_search r
        then ''\<newline>\<newline>[Note: This response includes information from a real-time web search]''
        else [])
     @ (if sources r = [] then []
        else ''\<newline>\<newline>Sources:\<newline>''
          @ concat (map (\<lambda>(i, source).
              if source \<noteq> [] \<and> source \<noteq> ''Unknown''
              then str_of_nat (i + 1) @ ''. '' @ source @ ''\<newline>'' else [])
            (enumerate 0 (list_of_set (sources r)))))
   \<and> (\<forall>x s. x \<in> set (sources r) \<and> (x = [] \<or> x = ''Unknown'')
          \<and> s \<in> set (sources r) \<and> s \<noteq> [] \<and> s \<noteq> ''Unknown'' \<longrightarrow>
        (\<exists>us rest. distinct us \<and> set us = set (sources r)
          \<and> format_response_with_sources (\<lambda>xs. us) r
              = answer r
                @ (if used_dynamic_search r
                   then ''\<newline>\<newline>[Note: This response includes information from a real-time web search]''
                   else [])
                @ ''\<newline>\<newline>Sources:\<newline>2. '' @ s @ ''\<newline>'' @ rest))
   \<and> (\<forall>s t. s \<in> set (sources r) \<and> s \<noteq> [] \<and> s \<noteq> ''Unknown''
          \<and> t \<in> set (sources r) \<and> t \<noteq> [] \<and> t \<noteq> ''Unknown'' \<and> s \<noteq> t \<longrightarrow>
        (\<exists>us rest. distinct us \<and> set us = set (sources r)
          \<and> format_response_with_sources (\<lambda>xs. us) r
              = answer r
                @ (if used_dynamic_search r
                   then ''\<newline>\<newline>[Note: This response includes information from a real-time web search]''
                   else [])
                @ ''\<newline>\<newline>Sources:\<newline>1. '' @ t @ ''\<newline>2. '' @ s @ ''\<newline>'' @ rest))"
proof (intro conjI allI impI)
  show "format_response_with_sources list_of_set r =
     answer r
     @ (if used_dynamic_search r
        then ''\<newline>\<newline>[Note: This response includes information from a real-time web search]''
        else [])
     @ (if sources r = [] then []
        else ''\<newline>\<newline>Sources:\<newline>''
          @ concat (map (\<lambda>(i, source).
              if source \<noteq> [] \<and> source \<noteq> ''Unknown''
              then str_of_nat (i + 1) @ ''. '' @ source @ ''\<newline>'' else [])
            (enumerate 0 (list_of_set (sources r)))))"
    by (rule format_response_with_sources_eq)
next
  fix x s
  assume h: "x \<in> set (sources r) \<and> (x = [] \<or> x = ''Unknown'')
          \<and> s \<in> set (sources r) \<and> s \<noteq> [] \<and> s \<noteq> ''Unknown''"
  define us where "us = x # s # remdups (filter (\<lambda>y. y \<noteq> x \<and> y \<noteq> s) (sources r))"
  from h have xs: "x \<noteq> s" by auto
  have ok: "distinct us \<and> set us = set (sources r)"
    unfolding us_def using order_with_two_first [of x "sources r" s] h xs by blast
  have ne: "sources r \<noteq> []" using h by auto
  have "format_response_with_sources (\<lambda>xs. us) r
      = answer r
                @ (if used_dynamic_search r
                   then ''\<newline>\<newline>[Note: This response includes information from a real-time web search]''
                   else [])
                @ ''\<newline>\<newline>Sources:\<newline>2. '' @ s @ ''\<newline>''
        @ sources_loop [] (Suc (Suc 0)) (remdups (filter (\<lambda>y. y \<noteq> x \<and> y \<noteq> s) (sources r)))"
    using h ne
    by (auto simp: format_response_with_sources_def us_def str_of_nat_2
        sources_loop_append [of "_ @ _"])
  with ok show "\<exists>us rest. distinct us \<and> set us = set (sources r)
          \<and> format_response_with_sources (\<lambda>xs. us) r
              = answer r
                @ (if used_dynamic_search r
                   then ''\<newline>\<newline>[Note: This response includes information from a real-time web search]''
                   else [])
                @ ''\<newline>\<newline>Sources:\<newline>2. '' @ s @ ''\<newline>'' @ rest"
    by blast
next
  fix s t
  assume h: "s \<in> set (sources r) \<and> s \<noteq> [] \<and> s \<noteq> ''Unknown''
          \<and> t \<in> set (sources r) \<and> t \<noteq> [] \<and> t \<noteq> ''Unknown'' \<and> s \<noteq> t"
  define us where "us = t # s # remdups (filter (\<lambda>y. y \<noteq> t \<and> y \<noteq> s) (sources r))"
  have ok: "distinct us \<and> set us = set (sources r)"
    unfolding us_def using order_with_two_first [of t "sources r" s] h by blast
  have ne: "sources r \<noteq> []" using h by auto
  have "format_response_with_sources (\<lambda>xs. us) r
      = answer r
                @ (if used_dynamic_search r
                   then ''\<newline>\<newline>[Note: This response includes information from a real-time web search]''
                   else [])
                @ ''\<newline>\<newline>Sources:\<newline>1. '' @ t @ ''\<newline>2. '' @ s @ ''\<newline>''
        @ sources_loop [] (Suc (Suc 0)) (remdups (filter (\<lambda>y. y \<noteq> t \<and> y \<noteq> s) (sources r)))"
    using h ne
    by (auto simp: format_response_with_sources_def us_def str_of_nat_2 str_of_nat_1
        sources_loop_append [of "_ @ _"])
  with ok show "\<exists>us rest. distinct us \<and> set us = set (sources r)
          \<and> format_response_with_sources (\<lambda>xs. us) r
              = answer r
                @ (if used_dynamic_search r
                   then ''\<newline>\<newline>[Note: This response includes information from a real-time web search]''
                   else [])
                @ ''\<newline>\<newline>Sources:\<newline>1. '' @ t @ ''\<newline>2. '' @ s @ ''\<newline>'' @ rest"
    by blast
qed

text \<open>The sources \<open>Unknown, a.txt, a.txt\<close>, listed in that order: the only line is numbered 2.\<close>

theorem source_numbering_skips_witness:
  "format_response_with_sources remdups
     \<lparr>question = ''q'', answer = ''ok'', sources = [''Unknown'', ''a.txt'', ''a.txt''],
      used_dynamic_search = False\<rparr>
     = ''ok\<newline>\<newline>Sources:\<newline>2. a.txt\<newline>''
   \<and> (\<exists>us rest. distinct us \<and> set us = {''Unknown'', ''a.txt''}
         \<and> format_response_with_sources (\<lambda>xs. us)
              \<lparr>question = ''q'', answer = ''ok'', sources = [''Unknown'', ''a.txt'', ''a.txt''],
               used_dynamic_search = False\<rparr>
             = ''ok\<newline>\<newline>Sources:\<newline>2. a.txt\<newline>'' @ rest)"
proof -
  define r where "r = \<lparr>question = ''q'', answer = ''ok'',
    sources = [''Unknown'', ''a.txt'', ''a.txt''], used_dynamic_search = False\<rparr>"
  note t = source_numbering_skips [of remdups r]
  from t have "format_response_with_sources remdups r
      = ''ok\<newline>\<newline>Sources:\<newline>2. a.txt\<newline>''"
    by (simp add: r_def str_of_nat_2)
  moreover from t have "''Unknown'' \<in> set (sources r) \<and> (''Unknown'' = [] \<or> ''Unknown'' = ''Unknown'')
          \<and> ''a.txt'' \<in> set (sources r) \<and> ''a.txt'' \<noteq> [] \<and> ''a.txt'' \<noteq> ''Unknown'' \<longrightarrow>
        (\<exists>us rest. distinct us \<and> set us = set (sources r)
          \<and> format_response_with_sources (\<lambda>xs. us) r
              = answer r
                @ (if used_dynamic_search r
                   then ''\<newline>\<newline>[Note: This response includes information from a real-time web search]''
                   else [])
                @ ''\<newline>\<newline>Sources:\<newline>2. '' @ ''a.txt'' @ ''\<newline>'' @ rest)"
    by blast
  then have "\<exists>us rest. distinct us \<and> set us = {''Unknown'', ''a.txt''}
         \<and> format_response_with_sources (\<lambda>xs. us) r
             = ''ok\<newline>\<newline>Sources:\<newline>2. a.txt\<newline>'' @ rest"
    by (simp add: r_def)
  ultimately show ?thesis
    unfolding r_def by blast
qed

end
